theory Spec2Isabelle
  imports Main "HOL-Library.Sublist"
begin

section \<open>Data model\<close>

text \<open>
  The cells of one form. The source keeps them in two atom families, \<open>$form(formId)\<close> and
  \<open>$field(fieldId(formId, name))\<close>; a read of a cell that was never written gives the
  family's default, so the cells of a form are a total function from names to states.
  Every operation below belongs to a single form, whose \<open>formId\<close> is fixed: \<open>form s\<close> is
  the state of \<open>$form(formId)\<close> and \<open>cell s name\<close> that of \<open>$field(fieldId(formId, name))\<close>.
\<close>

datatype FieldType = field_t | map_t | list_t

text \<open>
  Values handed to the form are JavaScript values. The model keeps the shapes that
  \<open>Object.entries\<close> tells apart; an array is an object whose keys are its indices, and
  the members of an object stand in the order in which \<open>Object.entries\<close> lists them.
  Nothing here computes with a number, which is kept as an integer.
\<close>

datatype jsval =
    JUndefined
  | JNull
  | JBool bool
  | JNum int
  | JStr string
  | JObj "(string \<times> jsval) list"

record ValidationResult =
  isValid :: bool
  isValidStrict :: bool

text \<open>
  \<open>FieldState\<close> is one object shape in the source, told apart by its \<open>type\<close> tag:
  updates are written \<open>{...state, type: FieldType.map}\<close>, so a map or list cell keeps
  the other members it had as a field.
\<close>

record FieldState =
  type_f :: FieldType
  children :: "string list"
  value_f :: jsval
  initialValue :: jsval
  touched :: bool
  touchedAfterSubmit :: bool
  validator :: "jsval \<Rightarrow> ValidationResult"
  validation :: ValidationResult

record FormState =
  fieldIds :: "string list"

record Store =
  form :: FormState
  cell :: "string \<Rightarrow> FieldState"

text \<open>\<open>set($field(fieldId(formId, name)), updater)\<close>\<close>

definition set_field :: "string \<Rightarrow> (FieldState \<Rightarrow> FieldState) \<Rightarrow> Store \<Rightarrow> Store" where
  "set_field name f s = s\<lparr>cell := (cell s)(name := f (cell s name))\<rparr>"

section \<open>Names\<close>

text \<open>\<open>name.split('.')\<close>: never empty; an empty name has the one segment \<open>''''\<close>.\<close>

fun split_dot :: "string \<Rightarrow> string list" where
  "split_dot [] = [[]]"
| "split_dot (c # cs) =
     (if c = CHR ''.'' then [] # split_dot cs
      else (case split_dot cs of
              [] \<Rightarrow> [[c]]
            | w # ws \<Rightarrow> (c # w) # ws))"

text \<open>\<open>xs.join('.')\<close>\<close>

fun join_dot :: "string list \<Rightarrow> string" where
  "join_dot [] = []"
| "join_dot [x] = x"
| "join_dot (x # y # ys) = x @ ''.'' @ join_dot (y # ys)"

definition nestedName :: "nat \<Rightarrow> string list \<Rightarrow> string" where
  "nestedName i ns = join_dot (take i ns)"

definition addOnlyIfUnique :: "'a list \<Rightarrow> 'a \<Rightarrow> 'a list" where
  "addOnlyIfUnique xs x = (if x \<in> set xs then xs else xs @ [x])"

section \<open>Registration (useFieldRegistration)\<close>

text \<open>The two updaters of one turn of the loop over \<open>i\<close> in \<open>add\<close>.\<close>

definition to_map :: "FieldState \<Rightarrow> FieldState" where
  "to_map state = (if type_f state = field_t then state\<lparr>type_f := map_t\<rparr> else state)"

definition add_child :: "string \<Rightarrow> FieldState \<Rightarrow> FieldState" where
  "add_child child state =
     (if type_f state \<noteq> field_t
      then state\<lparr>children := addOnlyIfUnique (children state) child\<rparr>
      else state)"

definition add_step :: "string list \<Rightarrow> Store \<Rightarrow> nat \<Rightarrow> Store" where
  "add_step ns s i =
     (let currentNodeName = nestedName (i + 1) ns
      in set_field currentNodeName (add_child (nestedName (i + 2) ns))
           (set_field currentNodeName to_map s))"

text \<open>\<open>for (let i = 0; i < ns.length - 1; i++)\<close>\<close>

definition add_nodes :: "Store \<Rightarrow> string \<Rightarrow> Store" where
  "add_nodes s name = (let ns = split_dot name in foldl (add_step ns) s [0 ..< length ns - 1])"

text \<open>
  \<open>add(names)\<close>: the loop over the names pushes \<open>ns[0]\<close> to \<open>toAdd\<close> and writes the
  nodes; the form's \<open>fieldIds\<close> are written last.
\<close>

definition add :: "string list \<Rightarrow> Store \<Rightarrow> Store" where
  "add names s =
     (let toAdd = map (\<lambda>name. hd (split_dot name)) names;
          s1 = foldl add_nodes s names;
          ids = fieldIds (form s1)
      in s1\<lparr>form := (form s1)\<lparr>fieldIds := ids @ filter (\<lambda>id. id \<notin> set ids) toAdd\<rparr>\<rparr>)"




section \<open>Defaults\<close>

text \<open>
  Modelled from the spec: the default state of the \<open>$field\<close> atom family, declared in the
  selectors module (not under src/). "A \<open>Field\<close> cell is created lazily on first
  read/write (default state)": the default has variant \<open>Field\<close>. The source reads
  \<open>state.children\<close> of a cell it has just coerced to a map, so the default has a list of
  children, taken empty; the other members are placeholders, and no property of the
  operations below depends on them.
\<close>

definition defaultFieldState :: FieldState where
  "defaultFieldState =
     \<lparr>type_f = field_t, children = [], value_f = JUndefined, initialValue = JUndefined,
      touched = False, touchedAfterSubmit = False,
      validator = (\<lambda>_. \<lparr>isValid = True, isValidStrict = True\<rparr>),
      validation = \<lparr>isValid = True, isValidStrict = True\<rparr>\<rparr>"

text \<open>
  Modelled from the spec: the default of the \<open>$form\<close> atom (selectors, not under src/):
  a form with no registered field.
\<close>

definition defaultFormState :: FormState where
  "defaultFormState = \<lparr>fieldIds = []\<rparr>"

definition defaultStore :: Store where
  "defaultStore = \<lparr>form = defaultFormState, cell = (\<lambda>_. defaultFieldState)\<rparr>"



section \<open>Bulk operations of the form (useForm)\<close>

definition onFieldTypeOnly :: "(FieldState \<Rightarrow> FieldState) \<Rightarrow> FieldState \<Rightarrow> FieldState" where
  "onFieldTypeOnly f state = (if type_f state = field_t then f state else state)"

datatype error = TypeError

text \<open>Decimal digits of an index, as \<open>Object.entries\<close> of a string names its characters.\<close>

fun show_nat :: "nat \<Rightarrow> string" where
  "show_nat n =
     (if n < 10 then [char_of (48 + n)]
      else show_nat (n div 10) @ [char_of (48 + n mod 10)])"

text \<open>
  \<open>Object.entries(value)\<close>: throws on \<open>null\<close> and \<open>undefined\<close>, is empty on a boolean or
  a number, lists the characters of a string and the members of an object.
\<close>

fun Object_entries :: "jsval \<Rightarrow> error + (string \<times> jsval) list" where
  "Object_entries JUndefined = Inl TypeError"
| "Object_entries JNull = Inl TypeError"
| "Object_entries (JBool b) = Inr []"
| "Object_entries (JNum n) = Inr []"
| "Object_entries (JStr str) = Inr (map (\<lambda>(i, c). (show_nat i, JStr [c])) (enumerate 0 str))"
| "Object_entries (JObj kvs) = Inr kvs"

record SetValuesOptions =
  validate :: bool
  equal :: "jsval \<Rightarrow> jsval \<Rightarrow> bool"

definition alwaysFalse :: "jsval \<Rightarrow> jsval \<Rightarrow> bool" where
  "alwaysFalse a b = False"

text \<open>\<open>{ validate = true, equal = alwaysFalse }: SetValuesOptions = {}\<close>\<close>

definition defaultSetValuesOptions :: SetValuesOptions where
  "defaultSetValuesOptions = \<lparr>validate = True, equal = alwaysFalse\<rparr>"

text \<open>The updater that \<open>setValues\<close> applies to a cell of type \<open>field\<close>.\<close>

definition set_value :: "SetValuesOptions \<Rightarrow> jsval \<Rightarrow> FieldState \<Rightarrow> FieldState" where
  "set_value opts v state =
     (if equal opts (value_f state) v then state
      else state\<lparr>value_f := v,
                 validation := (if validate opts then validator state v else validation state)\<rparr>)"

text \<open>
  \<open>newValues\<close>: the entries of the value of a map, keyed by \<open>`${id}.${k}`\<close>. Each key holds
  a dot, so none is an index and \<open>Object.keys(newValues)\<close> keeps the order of the entries.
\<close>

definition newValues :: "string \<Rightarrow> (string \<times> jsval) list \<Rightarrow> (string \<times> jsval) list" where
  "newValues key es = map (\<lambda>(k, v). (key @ ''.'' @ k, v)) es"

text \<open>
  The recursive \<open>updater\<close> of \<open>setValues\<close>. A \<open>Dict\<close> is given as its entries in the order
  \<open>Object.keys\<close> lists them. \<open>get(atom)\<close> reads the cell as the transaction has written
  it so far. The recursion follows the cells of type \<open>map\<close> downwards and need not end
  (a string value under maps \<open>x\<close>, \<open>x.0\<close>, \<open>x.0.0\<close>, ...): \<open>None\<close> is not returning.
  \<open>Some (Inl e)\<close> is the exception \<open>e\<close>; the transaction is then not committed.
\<close>

partial_function (option) setValues_updater ::
  "SetValuesOptions \<Rightarrow> (string \<times> jsval) list \<Rightarrow> Store \<Rightarrow> (error + Store) option" where
  "setValues_updater opts vals s =
     (case vals of
        [] \<Rightarrow> Some (Inr s)
      | (key, v) # rest \<Rightarrow>
          (case type_f (cell s key) of
             field_t \<Rightarrow> setValues_updater opts rest (set_field key (set_value opts v) s)
           | map_t \<Rightarrow>
               (case Object_entries v of
                  Inl e \<Rightarrow> Some (Inl e)
                | Inr es \<Rightarrow>
                    Option.bind (setValues_updater opts (newValues key es) s)
                      (\<lambda>r. case r of
                             Inl e \<Rightarrow> Some (Inl e)
                           | Inr s' \<Rightarrow> setValues_updater opts rest s'))
           | list_t \<Rightarrow> setValues_updater opts rest s))"

definition setValues ::
  "(string \<times> jsval) list \<Rightarrow> SetValuesOptions \<Rightarrow> Store \<Rightarrow> (error + Store) option" where
  "setValues vals opts s = setValues_updater opts vals s"

partial_function (option) setInitialValues_updater ::
  "(string \<times> jsval) list \<Rightarrow> Store \<Rightarrow> (error + Store) option" where
  "setInitialValues_updater vals s =
     (case vals of
        [] \<Rightarrow> Some (Inr s)
      | (key, v) # rest \<Rightarrow>
          (case type_f (cell s key) of
             field_t \<Rightarrow>
               setInitialValues_updater rest
                 (set_field key (\<lambda>state. state\<lparr>initialValue := v\<rparr>) s)
           | map_t \<Rightarrow>
               (case Object_entries v of
                  Inl e \<Rightarrow> Some (Inl e)
                | Inr es \<Rightarrow>
                    Option.bind (setInitialValues_updater (newValues key es) s)
                      (\<lambda>r. case r of
                             Inl e \<Rightarrow> Some (Inl e)
                           | Inr s' \<Rightarrow> setInitialValues_updater rest s'))
           | list_t \<Rightarrow> setInitialValues_updater rest s))"

definition setInitialValues :: "(string \<times> jsval) list \<Rightarrow> Store \<Rightarrow> (error + Store) option" where
  "setInitialValues vals s = setInitialValues_updater vals s"


definition setTouched :: "(string \<times> bool) list \<Rightarrow> Store \<Rightarrow> Store" where
  "setTouched touched_d s =
     foldl (\<lambda>s (key, b). set_field key (onFieldTypeOnly (\<lambda>state. state\<lparr>touched := b\<rparr>)) s)
       s touched_d"

text \<open>
  The operations below read \<open>$allFieldIds(formId)\<close> from the snapshot. The selector is
  declared in the selectors module (not under src/); it is the parameter \<open>allFieldIds\<close>,
  a function of the cells that lists the ids of the fields.
\<close>

definition resetTouched :: "(Store \<Rightarrow> string list) \<Rightarrow> Store \<Rightarrow> Store" where
  "resetTouched allFieldIds s =
     foldl (\<lambda>s key. set_field key
              (onFieldTypeOnly (\<lambda>state. state\<lparr>touched := False, touchedAfterSubmit := False\<rparr>)) s)
       s (allFieldIds s)"

definition setAllToTouched :: "(Store \<Rightarrow> string list) \<Rightarrow> Store \<Rightarrow> Store" where
  "setAllToTouched allFieldIds s =
     foldl (\<lambda>s key. set_field key
              (onFieldTypeOnly (\<lambda>state. state\<lparr>touched := True, touchedAfterSubmit := True\<rparr>)) s)
       s (allFieldIds s)"

definition reset_updater :: "FieldState \<Rightarrow> FieldState" where
  "reset_updater state =
     (let v = initialValue state
      in state\<lparr>value_f := v, touched := False, touchedAfterSubmit := False,
                validation := validator state v\<rparr>)"

definition reset :: "(Store \<Rightarrow> string list) \<Rightarrow> Store \<Rightarrow> Store" where
  "reset allFieldIds s =
     foldl (\<lambda>s key. set_field key (onFieldTypeOnly reset_updater) s) s (allFieldIds s)"

definition revalidate :: "(Store \<Rightarrow> string list) \<Rightarrow> string list \<Rightarrow> Store \<Rightarrow> Store" where
  "revalidate allFieldIds ids s =
     (let fieldIdsToValidate = (if length ids > 0 then ids else allFieldIds s)
      in foldl (\<lambda>s key. set_field key
                  (onFieldTypeOnly
                     (\<lambda>state. state\<lparr>validation := validator state (value_f state)\<rparr>)) s)
           s fieldIdsToValidate)"


section \<open>Submission\<close>

text \<open>
  \<open>useGetBag\<close> reads seven selectors of the selectors module (not under src/). \<open>submit\<close>
  looks at \<open>validation\<close> only; the other six are kept together as \<open>bag_selected\<close>, and the
  whole read is the parameter \<open>getBag\<close>. The mutators that \<open>submit\<close> adds to the bag are
  the fixed operations of the form and are left out of the record.
\<close>

record 'sel Bag =
  bag_validation :: ValidationResult
  bag_selected :: 'sel

record ('sel, 'arg) OnSubmitBag = "'sel Bag" +
  args :: "'arg list"

datatype IsValidProp = isValid_prop | isValidStrict_prop

text \<open>\<open>bag.validation[isValidProp]\<close>\<close>

fun validation_at :: "ValidationResult \<Rightarrow> IsValidProp \<Rightarrow> bool" where
  "validation_at r isValid_prop = isValid r"
| "validation_at r isValidStrict_prop = isValidStrict r"

text \<open>
  The callbacks \<open>onSubmit\<close> and \<open>onSubmitInvalid\<close> are the caller's code. A call is
  recorded with its argument; what the callback does itself is outside the model.
  On the invalid path \<open>submit\<close> starts \<open>setAllToTouched()\<close> and then calls
  \<open>onSubmitInvalid\<close>; the model runs both to their end, in this order.
\<close>

datatype 'b callback_call = onSubmit 'b | onSubmitInvalid 'b

definition submit ::
  "(Store \<Rightarrow> 'sel Bag) \<Rightarrow> (Store \<Rightarrow> string list) \<Rightarrow> IsValidProp \<Rightarrow> 'arg list \<Rightarrow> Store
     \<Rightarrow> ('sel, 'arg) OnSubmitBag callback_call list \<times> Store" where
  "submit getBag allFieldIds isValidProp as s =
     (let bag = \<lparr>bag_validation = bag_validation (getBag s),
                 bag_selected = bag_selected (getBag s), args = as\<rparr>
      in if \<not> validation_at (bag_validation bag) isValidProp
         then ([onSubmitInvalid bag], setAllToTouched allFieldIds s)
         else ([onSubmit bag], s))"

section \<open>Lists (useList)\<close>

text \<open>
  What the operations of a list work on: the cells, the pool \<open>namesToReuse\<close> of the hook, and the
  number of ids that \<open>uid\<close> has handed out. \<open>namesToReuse\<close> is a JavaScript \<open>Set\<close>, which
  keeps its elements in the order they were first added: a list without repetition.
  \<open>uid\<close> is declared in its own module (not under src/): the parameter \<open>uid\<close> gives the
  id of the n-th call.
\<close>

record ListEnv =
  store :: Store
  namesToReuse :: "string list"
  uid_calls :: nat

text \<open>
  \<open>removeName\<close>: \<open>last(xs)\<close> is \<open>xs[xs.length - 1]\<close>, and a name always has a last
  segment; \<open>Set.add\<close> leaves the set as it is when the element is in it.
\<close>

definition removeName :: "string \<Rightarrow> ListEnv \<Rightarrow> ListEnv" where
  "removeName name env =
     env\<lparr>namesToReuse := addOnlyIfUnique (namesToReuse env) (last (split_dot name))\<rparr>"

text \<open>
  \<open>generateNewName\<close>: \<open>const [reusedName] = namesToReuse.current\<close> is the first element of
  the set, or \<open>undefined\<close>; \<open>reusedName || uid()\<close> calls \<open>uid\<close> when \<open>reusedName\<close> is
  \<open>undefined\<close> or the empty string.
\<close>

definition generateNewName :: "(nat \<Rightarrow> string) \<Rightarrow> string \<Rightarrow> ListEnv \<Rightarrow> string \<times> ListEnv" where
  "generateNewName uid name env =
     (case namesToReuse env of
        [] \<Rightarrow> (name @ ''.'' @ uid (uid_calls env), env\<lparr>uid_calls := Suc (uid_calls env)\<rparr>)
      | reusedName # _ \<Rightarrow>
          (let env' = env\<lparr>namesToReuse := removeAll reusedName (namesToReuse env)\<rparr>
           in if reusedName \<noteq> []
              then (name @ ''.'' @ reusedName, env')
              else (name @ ''.'' @ uid (uid_calls env'),
                    env'\<lparr>uid_calls := Suc (uid_calls env')\<rparr>)))"

definition setFieldState :: "string \<Rightarrow> (FieldState \<Rightarrow> FieldState) \<Rightarrow> ListEnv \<Rightarrow> ListEnv" where
  "setFieldState name f env = env\<lparr>store := set_field name f (store env)\<rparr>"



definition list_add :: "(nat \<Rightarrow> string) \<Rightarrow> string \<Rightarrow> ListEnv \<Rightarrow> string \<times> ListEnv" where
  "list_add uid name env =
     (let (newName, env') = generateNewName uid name env
      in (newName,
          setFieldState name (\<lambda>state. state\<lparr>children := children state @ [newName]\<rparr>) env'))"

text \<open>
  Indices are JavaScript numbers, modelled as integers. \<open>xs[i]\<close> is \<open>undefined\<close> (here
  \<open>None\<close>) out of range, and the index \<open>i\<close> of \<open>filter\<close> and \<open>map\<close> runs over the positions.
\<close>

definition js_index :: "'a list \<Rightarrow> int \<Rightarrow> 'a option" where
  "js_index xs i = (if 0 \<le> i \<and> i < int (length xs) then Some (xs ! nat i) else None)"

text \<open>
  \<open>remove(index)\<close>: the filter drops the child at \<open>index\<close> and releases its name.
\<close>

definition list_remove :: "string \<Rightarrow> int \<Rightarrow> ListEnv \<Rightarrow> ListEnv" where
  "list_remove name index env =
     (let cs = children (cell (store env) name);
          env' = (case js_index cs index of None \<Rightarrow> env | Some child \<Rightarrow> removeName child env)
      in setFieldState name
           (\<lambda>state. state\<lparr>children :=
                       map snd (filter (\<lambda>(i, child). int i \<noteq> index) (enumerate 0 (children state)))\<rparr>)
           env')"


text \<open>
  \<open>swap(a, b)\<close>: the children after the \<open>map\<close>, where \<open>None\<close> is an \<open>undefined\<close> written
  into the array (an index out of range).
\<close>

definition swap_children :: "int \<Rightarrow> int \<Rightarrow> 'a list \<Rightarrow> 'a option list" where
  "swap_children a b cs =
     (let ax = js_index cs a; bx = js_index cs b
      in map (\<lambda>(i, x). if int i = a then bx else if int i = b then ax else Some x)
           (enumerate 0 cs))"

text \<open>
  The cells hold names; a swap that writes \<open>undefined\<close> among the children leaves the
  type \<open>string[]\<close> of \<open>children\<close>, and is \<open>None\<close> here.
\<close>

definition defined_children :: "'a option list \<Rightarrow> 'a list option" where
  "defined_children os = (if None \<in> set os then None else Some (map the os))"

definition list_swap :: "string \<Rightarrow> int \<Rightarrow> int \<Rightarrow> Store \<Rightarrow> Store option" where
  "list_swap name a b s =
     (case defined_children (swap_children a b (children (cell s name))) of
        None \<Rightarrow> None
      | Some cs \<Rightarrow> Some (set_field name (\<lambda>state. state\<lparr>children := cs\<rparr>) s))"





section \<open>The operations as steps\<close>



section \<open>Auxiliary notions\<close>

text \<open>
  A node \<open>p\<close> that already is a map or a list and already has the child \<open>c\<close>; a name all
  of whose nodes are so. Registration reaches such a state and then changes nothing.
\<close>

definition has_child :: "Store \<Rightarrow> string \<Rightarrow> string \<Rightarrow> bool" where
  "has_child s p c = (type_f (cell s p) \<noteq> field_t \<and> c \<in> set (children (cell s p)))"

definition registered :: "Store \<Rightarrow> string \<Rightarrow> bool" where
  "registered s name =
     (let ns = split_dot name
      in \<forall>i < length ns - 1. has_child s (nestedName (i + 1) ns) (nestedName (i + 2) ns))"

text \<open>A form with the field \<open>x\<close> and the map \<open>a\<close> of one child, for examples.\<close>

definition example_store :: Store where
  "example_store = add [''x'', ''a.b''] defaultStore"

text \<open>
  Two states of a form with the same form node and the same variants, where every cell
  that is not a field is the same cell.
\<close>

definition same_structure :: "Store \<Rightarrow> Store \<Rightarrow> bool" where
  "same_structure s s' =
     (form s' = form s \<and>
      (\<forall>p. type_f (cell s' p) = type_f (cell s p) \<and>
           (type_f (cell s p) \<noteq> field_t \<longrightarrow> cell s' p = cell s p)))"

text \<open>
  Further examples: a validator that wants a text; the form above with a value typed
  into \<open>x\<close>; the top-level ids as the list of fields; a bag read whose validation is
  that of \<open>x\<close>.
\<close>

definition required :: "jsval \<Rightarrow> ValidationResult" where
  "required v =
     (if v = JStr [] then \<lparr>isValid = False, isValidStrict = False\<rparr>
      else \<lparr>isValid = True, isValidStrict = True\<rparr>)"

definition example_form :: Store where
  "example_form =
     set_field ''x''
       (\<lambda>state. state\<lparr>value_f := JStr ''v'', initialValue := JStr [], touched := True,
                       validator := required, validation := required (JStr ''v'')\<rparr>)
       example_store"

definition top_level_ids :: "Store \<Rightarrow> string list" where
  "top_level_ids s = fieldIds (form s)"

definition example_getBag :: "Store \<Rightarrow> unit Bag" where
  "example_getBag s = \<lparr>bag_validation = validation (cell s ''x''), bag_selected = ()\<rparr>"

text \<open>
  Examples with a list: the empty form with a list at \<open>a\<close>; the form above with a list
  at \<open>a.tags\<close>, and a listing of those of its cells that are fields; a list \<open>l\<close> whose
  ids are the decimal numbers; the list after three rows were added and the first two
  removed; then one more row added; then the first row removed.
\<close>

definition list_at_a :: Store where
  "list_at_a = set_field ''a'' (\<lambda>state. state\<lparr>type_f := list_t\<rparr>) defaultStore"

definition example_with_list :: Store where
  "example_with_list =
     set_field ''a.tags'' (\<lambda>state. state\<lparr>type_f := list_t\<rparr>) (add [''a.tags''] example_form)"

definition example_leaves :: "Store \<Rightarrow> string list" where
  "example_leaves s =
     filter (\<lambda>key. type_f (cell s key) = field_t) [''x'', ''a'', ''a.b'', ''a.b.c'', ''a.tags'']"

definition example_list :: ListEnv where
  "example_list =
     \<lparr>store = set_field ''l'' (\<lambda>state. state\<lparr>type_f := list_t\<rparr>) defaultStore,
      namesToReuse = [], uid_calls = 0\<rparr>"

definition example_rows :: ListEnv where
  "example_rows =
     list_remove ''l'' 0 (list_remove ''l'' 0
       (snd (list_add show_nat ''l'' (snd (list_add show_nat ''l''
         (snd (list_add show_nat ''l'' example_list)))))))"

definition example_rows_added :: ListEnv where
  "example_rows_added = snd (list_add show_nat ''l'' example_rows)"

definition example_rows_removed :: ListEnv where
  "example_rows_removed = list_remove ''l'' 0 example_rows_added"

section \<open>Names: properties\<close>

lemma split_dot_nonempty: "split_dot s \<noteq> []"
  by (induction s) (auto split: list.splits)

lemma split_dot_nodot: "CHR ''.'' \<notin> set a \<Longrightarrow> split_dot a = [a]"
  by (induction a) auto

lemma split_dot_append:
  "CHR ''.'' \<notin> set a \<Longrightarrow> split_dot (a @ CHR ''.'' # r) = a # split_dot r"
  by (induction a) (auto split: list.splits)

lemma split_dot_three:
  assumes "CHR ''.'' \<notin> set a" "CHR ''.'' \<notin> set b" "CHR ''.'' \<notin> set c"
  shows "split_dot (a @ ''.'' @ b @ ''.'' @ c) = [a, b, c]"
  using assms by (simp add: split_dot_append split_dot_nodot)

section \<open>Registration: properties\<close>

lemmas add_step_defs =
  add_step_def set_field_def to_map_def add_child_def addOnlyIfUnique_def Let_def

lemma add_step_fix:
  "has_child s (nestedName (i + 1) ns) (nestedName (i + 2) ns) \<Longrightarrow> add_step ns s i = s"
  by (simp add: has_child_def add_step_defs)

lemma add_step_mono: "has_child s p c \<Longrightarrow> has_child (add_step ns s i) p c"
  by (auto simp: has_child_def add_step_defs)

lemma add_step_est: "has_child (add_step ns s i) (nestedName (i + 1) ns) (nestedName (i + 2) ns)"
  by (simp add: has_child_def add_step_defs)

lemma add_step_form: "form (add_step ns s i) = form s"
  by (simp add: add_step_def set_field_def Let_def)

lemma add_step_form_update: "add_step ns (s\<lparr>form := f\<rparr>) i = (add_step ns s i)\<lparr>form := f\<rparr>"
  by (simp add: add_step_def set_field_def Let_def)

lemma foldl_add_step_mono: "has_child s p c \<Longrightarrow> has_child (foldl (add_step ns) s is) p c"
  by (induction "is" arbitrary: s) (auto intro: add_step_mono)

lemma foldl_add_step_est:
  "i \<in> set is \<Longrightarrow>
   has_child (foldl (add_step ns) s is) (nestedName (i + 1) ns) (nestedName (i + 2) ns)"
proof (induction "is" arbitrary: s)
  case Nil
  then show ?case by simp
next
  case (Cons j js)
  show ?case
  proof (cases "i = j")
    case True
    then show ?thesis using add_step_est foldl_add_step_mono by simp
  next
    case False
    then show ?thesis using Cons by simp
  qed
qed

lemma foldl_add_step_form: "form (foldl (add_step ns) s is) = form s"
  by (induction "is" arbitrary: s) (simp_all add: add_step_form)

lemma foldl_add_step_form_update:
  "foldl (add_step ns) (s\<lparr>form := f\<rparr>) is = (foldl (add_step ns) s is)\<lparr>form := f\<rparr>"
  by (induction "is" arbitrary: s) (simp_all add: add_step_form_update)

lemma foldl_fix: "(\<And>x. x \<in> set xs \<Longrightarrow> f s x = s) \<Longrightarrow> foldl f s xs = s"
  by (induction xs) auto

lemma add_nodes_fix: "registered s name \<Longrightarrow> add_nodes s name = s"
  unfolding add_nodes_def registered_def Let_def
  by (rule foldl_fix) (simp add: add_step_fix)

lemma add_nodes_mono: "has_child s p c \<Longrightarrow> has_child (add_nodes s name) p c"
  by (simp add: add_nodes_def Let_def foldl_add_step_mono)

lemma add_nodes_est: "registered (add_nodes s name) name"
  using foldl_add_step_est [of _ "[0 ..< length (split_dot name) - 1]" "split_dot name" s]
  by (simp add: add_nodes_def registered_def Let_def)

lemma add_nodes_form: "form (add_nodes s name) = form s"
  by (simp add: add_nodes_def Let_def foldl_add_step_form)

lemma add_nodes_form_update:
  "add_nodes (s\<lparr>form := f\<rparr>) name = (add_nodes s name)\<lparr>form := f\<rparr>"
  by (simp add: add_nodes_def Let_def foldl_add_step_form_update)

lemma registered_mono: "registered s n \<Longrightarrow> registered (add_nodes s name) n"
  by (simp add: registered_def Let_def add_nodes_mono)

lemma foldl_add_nodes_mono: "registered s n \<Longrightarrow> registered (foldl add_nodes s names) n"
  by (induction names arbitrary: s) (auto intro: registered_mono)

lemma foldl_add_nodes_est: "n \<in> set names \<Longrightarrow> registered (foldl add_nodes s names) n"
proof (induction names arbitrary: s)
  case Nil
  then show ?case by simp
next
  case (Cons m ms)
  show ?case
  proof (cases "n = m")
    case True
    then show ?thesis using add_nodes_est foldl_add_nodes_mono by simp
  next
    case False
    then show ?thesis using Cons by simp
  qed
qed

lemma foldl_add_nodes_form: "form (foldl add_nodes s names) = form s"
  by (induction names arbitrary: s) (simp_all add: add_nodes_form)

lemma foldl_add_nodes_form_update:
  "foldl add_nodes (s\<lparr>form := f\<rparr>) names = (foldl add_nodes s names)\<lparr>form := f\<rparr>"
  by (induction names arbitrary: s) (simp_all add: add_nodes_form_update)

lemma foldl_add_nodes_idem:
  "foldl add_nodes (foldl add_nodes s names) names = foldl add_nodes s names"
  by (rule foldl_fix) (simp add: add_nodes_fix foldl_add_nodes_est)

lemma filter_absent_idem:
  "filter (\<lambda>id. id \<notin> set (ids @ filter (\<lambda>id. id \<notin> set ids) toAdd)) toAdd = []"
  by (auto simp: filter_empty_conv)

text \<open>A second registration of a whole batch of names changes nothing.\<close>

lemma add_idem: "add names (add names s) = add names s"
proof -
  let ?s1 = "foldl add_nodes s names"
  let ?toAdd = "map (\<lambda>name. hd (split_dot name)) names"
  let ?ids = "fieldIds (form s)"
  let ?ids1 = "?ids @ filter (\<lambda>id. id \<notin> set ?ids) ?toAdd"
  let ?f1 = "(form s)\<lparr>fieldIds := ?ids1\<rparr>"
  have a1: "add names s = ?s1\<lparr>form := ?f1\<rparr>"
    by (simp add: add_def Let_def foldl_add_nodes_form)
  have a2: "foldl add_nodes (?s1\<lparr>form := ?f1\<rparr>) names = ?s1\<lparr>form := ?f1\<rparr>"
    by (simp add: foldl_add_nodes_form_update foldl_add_nodes_idem)
  have a3: "filter (\<lambda>id. id \<notin> set ?ids1) ?toAdd = []"
    by (rule filter_absent_idem)
  have "add names (?s1\<lparr>form := ?f1\<rparr>) = ?s1\<lparr>form := ?f1\<rparr>"
    unfolding add_def Let_def a2 using a3 by simp
  then show ?thesis by (simp only: a1)
qed

lemma add_nodes_three:
  assumes "split_dot name = [a, b, c]"
  shows "add_nodes s name = add_step [a, b, c] (add_step [a, b, c] s 0) 1"
proof -
  have "[0 ..< 2] = [0, Suc 0]" by (simp add: upt_rec)
  then show ?thesis using assms by (simp add: add_nodes_def Let_def)
qed

lemma add_fieldIds_hd:
  "name \<in> set names \<Longrightarrow> hd (split_dot name) \<in> set (fieldIds (form (add names s)))"
  by (auto simp: add_def Let_def)

lemma add_single_cell: "cell (add [name] s) = cell (add_nodes s name)"
  by (simp add: add_def Let_def)

lemma add_step_children_prefix:
  "prefix (children (cell s p)) (children (cell (add_step ns s i) p))"
  by (simp add: add_step_defs)

lemma add_step_children_distinct:
  "distinct (children (cell s p)) \<Longrightarrow> distinct (children (cell (add_step ns s i) p))"
  by (auto simp: add_step_defs)

lemma foldl_add_step_children_prefix:
  "prefix (children (cell s p)) (children (cell (foldl (add_step ns) s is) p))"
proof (induction "is" arbitrary: s)
  case Nil
  show ?case by simp
next
  case (Cons i "is")
  have "prefix (children (cell s p)) (children (cell (add_step ns s i) p))"
    by (rule add_step_children_prefix)
  also have "prefix \<dots> (children (cell (foldl (add_step ns) (add_step ns s i) is) p))"
    by (rule Cons.IH)
  finally show ?case by simp
qed

lemma foldl_add_step_children_distinct:
  "distinct (children (cell s p)) \<Longrightarrow> distinct (children (cell (foldl (add_step ns) s is) p))"
  by (induction "is" arbitrary: s) (simp_all add: add_step_children_distinct)

lemmas eval_defs =
  example_store_def list_at_a_def add_def add_nodes_def add_step_def set_field_def
  nestedName_def to_map_def add_child_def addOnlyIfUnique_def defaultStore_def
  defaultFieldState_def defaultFormState_def Let_def upt_rec
  example_form_def top_level_ids_def example_getBag_def required_def
  reset_def onFieldTypeOnly_def reset_updater_def setAllToTouched_def
  example_with_list_def example_leaves_def

text \<open>
  C1 (as the code has it). For every form and every name \<open>a.b.c\<close> of three segments,
  after \<open>add\<close> of that name the cell at \<open>a\<close> is a map, unless it was a list before, which
  it then still is, and has \<open>a.b\<close> among its children; the cell at \<open>a.b\<close> is a map, unless
  it was a list before, and has \<open>a.b.c\<close> among its children; and the \<open>fieldIds\<close> of the
  form contain \<open>a\<close>.
\<close>

theorem register_nested_name:
  assumes "CHR ''.'' \<notin> set a" and "CHR ''.'' \<notin> set b" and "CHR ''.'' \<notin> set c"
  shows "type_f (cell (add [a @ ''.'' @ b @ ''.'' @ c] s) a) =
           (if type_f (cell s a) = list_t then list_t else map_t)
       \<and> a @ ''.'' @ b \<in> set (children (cell (add [a @ ''.'' @ b @ ''.'' @ c] s) a))
       \<and> type_f (cell (add [a @ ''.'' @ b @ ''.'' @ c] s) (a @ ''.'' @ b)) =
           (if type_f (cell s (a @ ''.'' @ b)) = list_t then list_t else map_t)
       \<and> a @ ''.'' @ b @ ''.'' @ c
           \<in> set (children (cell (add [a @ ''.'' @ b @ ''.'' @ c] s) (a @ ''.'' @ b)))
       \<and> a \<in> set (fieldIds (form (add [a @ ''.'' @ b @ ''.'' @ c] s)))"
proof -
  let ?name = "a @ ''.'' @ b @ ''.'' @ c"
  have sp: "split_dot ?name = [a, b, c]"
    using assms by (rule split_dot_three)
  have ne: "a \<noteq> a @ ''.'' @ b" by simp
  have cells: "cell (add [?name] s) = cell (add_step [a, b, c] (add_step [a, b, c] s 0) 1)"
    using add_nodes_three [OF sp, of s] by (simp add: add_def Let_def)
  have n1: "nestedName (Suc 0) [a, b, c] = a"
    by (simp add: nestedName_def)
  have n2: "nestedName (Suc (Suc 0)) [a, b, c] = a @ ''.'' @ b"
    by (simp add: nestedName_def)
  have n3: "nestedName (Suc (Suc (Suc 0))) [a, b, c] = a @ ''.'' @ b @ ''.'' @ c"
    by (simp add: nestedName_def)
  have ids: "a \<in> set (fieldIds (form (add [?name] s)))"
    using add_fieldIds_hd [of ?name "[?name]" s] sp by simp
  have ta: "type_f (cell (add [?name] s) a) = (if type_f (cell s a) = list_t then list_t else map_t)"
    unfolding cells using ne
    by (cases "type_f (cell s a)") (simp_all add: add_step_defs n1 n2 n3)
  have tb: "type_f (cell (add [?name] s) (a @ ''.'' @ b)) =
      (if type_f (cell s (a @ ''.'' @ b)) = list_t then list_t else map_t)"
    unfolding cells using ne
    by (cases "type_f (cell s (a @ ''.'' @ b))") (simp_all add: add_step_defs n1 n2 n3)
  have ca: "a @ ''.'' @ b \<in> set (children (cell (add [?name] s) a))"
    unfolding cells using ne by (simp add: add_step_defs n1 n2 n3)
  have cb: "?name \<in> set (children (cell (add [?name] s) (a @ ''.'' @ b)))"
    unfolding cells using ne by (simp add: add_step_defs n1 n2 n3)
  from ta ca tb cb ids show ?thesis by (simp only: simp_thms)
qed

theorem register_nested_name_witness:
  "CHR ''.'' \<notin> set ''a'' \<and> CHR ''.'' \<notin> set ''b'' \<and> CHR ''.'' \<notin> set ''c''
   \<and> type_f (cell (add [''a.b.c''] defaultStore) ''a'') = map_t
   \<and> ''a.b'' \<in> set (children (cell (add [''a.b.c''] defaultStore) ''a''))
   \<and> type_f (cell (add [''a.b.c''] defaultStore) ''a.b'') = map_t
   \<and> ''a.b.c'' \<in> set (children (cell (add [''a.b.c''] defaultStore) ''a.b''))
   \<and> ''a'' \<in> set (fieldIds (form (add [''a.b.c''] defaultStore)))"
  using register_nested_name [of "''a''" "''b''" "''c''" defaultStore]
  by (simp add: defaultStore_def defaultFieldState_def)

text \<open>
  C1 as stated fails at a form whose cell \<open>a\<close> is a list: after the nested name
  \<open>a.b.c\<close> is registered, \<open>a\<close> is still a list, not a map.
\<close>

theorem register_under_list_counterexample:
  "type_f (cell list_at_a ''a'') = list_t
   \<and> type_f (cell (add [''a.b.c''] list_at_a) ''a'') = list_t
   \<and> type_f (cell (add [''a.b.c''] list_at_a) ''a'') \<noteq> map_t"
  by (simp add: eval_defs)

text \<open>
  C2. Registering the same name twice gives the same state as registering it once: the
  same children everywhere and the same \<open>fieldIds\<close>. A registration only appends: what
  was in \<open>fieldIds\<close> and in the children of a cell \<open>p\<close> stays in front, in its order, and a
  list without duplicates stays without duplicates.
\<close>

theorem register_twice:
  "add [name] (add [name] s) = add [name] s
   \<and> prefix (fieldIds (form s)) (fieldIds (form (add [name] s)))
   \<and> (distinct (fieldIds (form s)) \<longrightarrow> distinct (fieldIds (form (add [name] s))))
   \<and> prefix (children (cell s p)) (children (cell (add [name] s) p))
   \<and> (distinct (children (cell s p)) \<longrightarrow> distinct (children (cell (add [name] s) p)))"
proof -
  have ids: "fieldIds (form (add [name] s)) =
      fieldIds (form s) @ filter (\<lambda>id. id \<notin> set (fieldIds (form s))) [hd (split_dot name)]"
    by (simp add: add_def Let_def add_nodes_form)
  have p1: "prefix (fieldIds (form s)) (fieldIds (form (add [name] s)))"
    unfolding ids by simp
  have d1: "distinct (fieldIds (form s)) \<longrightarrow> distinct (fieldIds (form (add [name] s)))"
    unfolding ids by simp
  have p2: "prefix (children (cell s p)) (children (cell (add [name] s) p))"
    by (simp add: add_single_cell add_nodes_def Let_def foldl_add_step_children_prefix)
  have d2: "distinct (children (cell s p)) \<longrightarrow> distinct (children (cell (add [name] s) p))"
    by (simp add: add_single_cell add_nodes_def Let_def foldl_add_step_children_distinct)
  from add_idem [of "[name]" s] p1 d1 p2 d2 show ?thesis by (simp only: simp_thms)
qed

theorem register_twice_witness:
  "distinct (fieldIds (form example_store))
   \<and> distinct (children (cell example_store ''a''))
   \<and> add [''a.c''] (add [''a.c''] example_store) = add [''a.c''] example_store
   \<and> fieldIds (form (add [''a.c''] example_store)) = [''x'', ''a'']
   \<and> children (cell (add [''a.c''] example_store) ''a'') = [''a.b'', ''a.c'']"
  using register_twice [of "''a.c''" example_store "''a''"]
  by (simp add: eval_defs)

section \<open>Bulk operations: properties\<close>

lemma foldl_cell_fixed:
  assumes "\<And>t x. cell t p = c \<Longrightarrow> cell (step t x) p = c"
  shows "cell s p = c \<Longrightarrow> cell (foldl step s xs) p = c"
  by (induction xs arbitrary: s) (simp_all add: assms)

lemma bulk_other:
  "p \<notin> set keys \<Longrightarrow> cell (foldl (\<lambda>s key. set_field key (g key) s) s keys) p = cell s p"
  by (induction keys arbitrary: s) (simp_all add: set_field_def)

lemma bulk_fixed:
  assumes "\<And>key. g key (cell s p) = cell s p"
  shows "cell (foldl (\<lambda>s key. set_field key (g key) s) s keys) p = cell s p"
  by (rule foldl_cell_fixed) (auto simp: set_field_def assms)

text \<open>An updater that changes nothing the second time, run over a list of keys.\<close>

lemma bulk_idem:
  assumes "\<And>x. f (f x) = f x" and "p \<in> set keys"
  shows "cell (foldl (\<lambda>s key. set_field key f s) s keys) p = f (cell s p)"
  using assms(2)
proof (induction keys arbitrary: s)
  case Nil
  then show ?case by simp
next
  case (Cons k ks)
  show ?case
  proof (cases "p \<in> set ks")
    case True
    then show ?thesis using Cons.IH [of "set_field k f s"] assms(1)
      by (simp add: set_field_def)
  next
    case False
    with Cons.prems have "p = k" by simp
    with False show ?thesis
      using bulk_other [of p ks "\<lambda>_. f" "set_field k f s"] by (simp add: set_field_def)
  qed
qed

lemma onFieldTypeOnly_idem:
  assumes "\<And>x. f (f x) = f x" and "\<And>x. type_f (f x) = type_f x"
  shows "onFieldTypeOnly f (onFieldTypeOnly f x) = onFieldTypeOnly f x"
  using assms by (simp add: onFieldTypeOnly_def)

lemma onFieldTypeOnly_skip: "type_f x \<noteq> field_t \<Longrightarrow> onFieldTypeOnly f x = x"
  by (simp add: onFieldTypeOnly_def)

lemma reset_updater_idem: "reset_updater (reset_updater x) = reset_updater x"
  by (simp add: reset_updater_def Let_def)

lemma reset_updater_type: "type_f (reset_updater x) = type_f x"
  by (simp add: reset_updater_def Let_def)

lemma reset_cell:
  assumes "key \<in> set (allFieldIds s)" and "type_f (cell s key) = field_t"
  shows "cell (reset allFieldIds s) key = reset_updater (cell s key)"
proof -
  have "cell (reset allFieldIds s) key = onFieldTypeOnly reset_updater (cell s key)"
    unfolding reset_def using assms(1)
    by (intro bulk_idem onFieldTypeOnly_idem reset_updater_idem reset_updater_type)
  then show ?thesis using assms(2) by (simp add: onFieldTypeOnly_def)
qed

lemma setAllToTouched_cell:
  assumes "key \<in> set (allFieldIds s)" and "type_f (cell s key) = field_t"
  shows "cell (setAllToTouched allFieldIds s) key =
           (cell s key)\<lparr>touched := True, touchedAfterSubmit := True\<rparr>"
proof -
  let ?f = "\<lambda>state. state\<lparr>touched := True, touchedAfterSubmit := True\<rparr>"
  have "cell (setAllToTouched allFieldIds s) key = onFieldTypeOnly ?f (cell s key)"
    unfolding setAllToTouched_def using assms(1)
    by (intro bulk_idem onFieldTypeOnly_idem) simp_all
  then show ?thesis using assms(2) by (simp add: onFieldTypeOnly_def)
qed

lemma setTouched_skip:
  "type_f (cell s p) \<noteq> field_t \<Longrightarrow> cell (setTouched touched_d s) p = cell s p"
  unfolding setTouched_def
  by (rule foldl_cell_fixed) (auto simp: set_field_def onFieldTypeOnly_def)

lemma resetTouched_skip:
  "type_f (cell s p) \<noteq> field_t \<Longrightarrow> cell (resetTouched allFieldIds s) p = cell s p"
  unfolding resetTouched_def by (rule bulk_fixed) (simp add: onFieldTypeOnly_skip)

lemma setAllToTouched_skip:
  "type_f (cell s p) \<noteq> field_t \<Longrightarrow> cell (setAllToTouched allFieldIds s) p = cell s p"
  unfolding setAllToTouched_def by (rule bulk_fixed) (simp add: onFieldTypeOnly_skip)

lemma reset_skip:
  "type_f (cell s p) \<noteq> field_t \<Longrightarrow> cell (reset allFieldIds s) p = cell s p"
  unfolding reset_def by (rule bulk_fixed) (simp add: onFieldTypeOnly_skip)

lemma revalidate_skip:
  "type_f (cell s p) \<noteq> field_t \<Longrightarrow> cell (revalidate allFieldIds ids s) p = cell s p"
  unfolding revalidate_def Let_def by (rule bulk_fixed) (simp add: onFieldTypeOnly_skip)

text \<open>
  C3. When the validity flag that \<open>isValidProp\<close> selects in the bag is false, \<open>submit\<close>
  calls \<open>onSubmitInvalid\<close> once, with the bag, and makes no other call (\<open>onSubmit\<close> is
  not called); and every cell of type field among the ids of \<open>$allFieldIds\<close> is touched
  and touched after submit in the resulting state.
\<close>

theorem submit_invalid:
  assumes "\<not> validation_at (bag_validation (getBag s)) isValidProp"
  shows "fst (submit getBag allFieldIds isValidProp as s) =
           [onSubmitInvalid \<lparr>bag_validation = bag_validation (getBag s),
                             bag_selected = bag_selected (getBag s), args = as\<rparr>]
       \<and> (\<forall>key \<in> set (allFieldIds s). type_f (cell s key) = field_t \<longrightarrow>
            touched (cell (snd (submit getBag allFieldIds isValidProp as s)) key)
          \<and> touchedAfterSubmit (cell (snd (submit getBag allFieldIds isValidProp as s)) key))"
  using assms by (simp add: submit_def Let_def setAllToTouched_cell)

theorem submit_invalid_witness:
  "\<not> validation_at (bag_validation (example_getBag (reset top_level_ids example_form))) isValid_prop
   \<and> \<not> touched (cell (reset top_level_ids example_form) ''x'')
   \<and> fst (submit example_getBag top_level_ids isValid_prop ([] :: unit list)
            (reset top_level_ids example_form)) =
        [onSubmitInvalid \<lparr>bag_validation = \<lparr>isValid = False, isValidStrict = False\<rparr>,
                          bag_selected = (), args = []\<rparr>]
   \<and> touched (cell (snd (submit example_getBag top_level_ids isValid_prop ([] :: unit list)
                 (reset top_level_ids example_form))) ''x'')
   \<and> touchedAfterSubmit (cell (snd (submit example_getBag top_level_ids isValid_prop ([] :: unit list)
                 (reset top_level_ids example_form))) ''x'')"
proof -
  let ?s = "reset top_level_ids example_form"
  have h: "\<not> validation_at (bag_validation (example_getBag ?s)) isValid_prop"
    by (simp add: eval_defs)
  have k: "''x'' \<in> set (top_level_ids ?s)"
    by (simp add: eval_defs)
  have t: "type_f (cell ?s ''x'') = field_t"
    by (simp add: eval_defs)
  have n: "\<not> touched (cell ?s ''x'')"
    by (simp add: eval_defs)
  have b: "bag_validation (example_getBag ?s) = \<lparr>isValid = False, isValidStrict = False\<rparr>"
    by (simp add: eval_defs)
  have u: "bag_selected (example_getBag ?s) = ()"
    by simp
  note inst = submit_invalid [where getBag = example_getBag and s = ?s
      and isValidProp = isValid_prop and as = "[] :: unit list" and allFieldIds = top_level_ids,
      OF h]
  from inst k t have
    "touched (cell (snd (submit example_getBag top_level_ids isValid_prop ([] :: unit list) ?s)) ''x'')"
    "touchedAfterSubmit (cell (snd (submit example_getBag top_level_ids isValid_prop ([] :: unit list) ?s)) ''x'')"
    by blast+
  moreover from inst have
    "fst (submit example_getBag top_level_ids isValid_prop ([] :: unit list) ?s) =
       [onSubmitInvalid \<lparr>bag_validation = \<lparr>isValid = False, isValidStrict = False\<rparr>,
                         bag_selected = (), args = []\<rparr>]"
    unfolding b u by blast
  ultimately show ?thesis using h n by blast
qed

text \<open>
  C4. After \<open>reset\<close>, every cell of type field among the ids of \<open>$allFieldIds\<close> has its
  value equal to its initial value, is neither touched nor touched after submit, and
  has for validation the result of its validator on the initial value; the initial
  value and the validator are those it had before.
\<close>

theorem reset_restores_leaves:
  assumes "key \<in> set (allFieldIds s)" and "type_f (cell s key) = field_t"
  shows "value_f (cell (reset allFieldIds s) key) = initialValue (cell (reset allFieldIds s) key)
       \<and> \<not> touched (cell (reset allFieldIds s) key)
       \<and> \<not> touchedAfterSubmit (cell (reset allFieldIds s) key)
       \<and> validation (cell (reset allFieldIds s) key) =
           validator (cell (reset allFieldIds s) key) (initialValue (cell (reset allFieldIds s) key))
       \<and> initialValue (cell (reset allFieldIds s) key) = initialValue (cell s key)
       \<and> validator (cell (reset allFieldIds s) key) = validator (cell s key)"
  using reset_cell [of key allFieldIds s] assms by (simp add: reset_updater_def Let_def)

theorem reset_restores_leaves_witness:
  "''x'' \<in> set (top_level_ids example_form) \<and> type_f (cell example_form ''x'') = field_t
   \<and> value_f (cell example_form ''x'') = JStr ''v''
   \<and> touched (cell example_form ''x'')
   \<and> value_f (cell (reset top_level_ids example_form) ''x'') = JStr []
   \<and> \<not> touched (cell (reset top_level_ids example_form) ''x'')
   \<and> validation (cell (reset top_level_ids example_form) ''x'') = required (JStr [])"
  using reset_restores_leaves [where key = "''x''" and allFieldIds = top_level_ids and s = example_form]
  by (simp add: eval_defs)

text \<open>
  C10. \<open>setTouched\<close>, \<open>resetTouched\<close>, \<open>setAllToTouched\<close>, \<open>reset\<close> and \<open>revalidate\<close> leave
  every cell that is a map or a list exactly as it was.
\<close>

theorem bulk_operations_skip_structure:
  assumes "type_f (cell s p) \<noteq> field_t"
  shows "cell (setTouched touched_d s) p = cell s p
       \<and> cell (resetTouched allFieldIds s) p = cell s p
       \<and> cell (setAllToTouched allFieldIds s) p = cell s p
       \<and> cell (reset allFieldIds s) p = cell s p
       \<and> cell (revalidate allFieldIds ids s) p = cell s p"
  using assms
  by (simp add: setTouched_skip resetTouched_skip setAllToTouched_skip reset_skip revalidate_skip)

theorem bulk_operations_skip_structure_witness:
  "type_f (cell example_form ''a'') \<noteq> field_t
   \<and> cell (setTouched [(''a'', True)] example_form) ''a'' = cell example_form ''a''
   \<and> cell (resetTouched top_level_ids example_form) ''a'' = cell example_form ''a''
   \<and> cell (setAllToTouched top_level_ids example_form) ''a'' = cell example_form ''a''
   \<and> cell (reset top_level_ids example_form) ''a'' = cell example_form ''a''
   \<and> cell (revalidate top_level_ids [''a''] example_form) ''a'' = cell example_form ''a''"
proof -
  have h: "type_f (cell example_form ''a'') \<noteq> field_t"
    by (simp add: eval_defs)
  from h bulk_operations_skip_structure [OF h] show ?thesis by blast
qed

section \<open>setValues and setInitialValues: properties\<close>

lemma updater_Nil: "setValues_updater opts [] s = Some (Inr s)"
  by (subst setValues_updater.simps) simp

lemma updater_field:
  "type_f (cell s key) = field_t \<Longrightarrow>
   setValues_updater opts ((key, v) # rest) s =
     setValues_updater opts rest (set_field key (set_value opts v) s)"
  by (subst setValues_updater.simps) simp

lemma updater_list:
  "type_f (cell s key) = list_t \<Longrightarrow>
   setValues_updater opts ((key, v) # rest) s = setValues_updater opts rest s"
  by (subst setValues_updater.simps) simp

lemma updater_map:
  "type_f (cell s key) = map_t \<Longrightarrow>
   setValues_updater opts ((key, v) # rest) s =
     (case Object_entries v of
        Inl e \<Rightarrow> Some (Inl e)
      | Inr es \<Rightarrow>
          Option.bind (setValues_updater opts (newValues key es) s)
            (\<lambda>r. case r of Inl e \<Rightarrow> Some (Inl e) | Inr s' \<Rightarrow> setValues_updater opts rest s'))"
  by (subst setValues_updater.simps) simp

lemma set_value_type: "type_f (set_value opts v state) = type_f state"
  by (simp add: set_value_def)

lemma same_structure_refl: "same_structure s s"
  by (simp add: same_structure_def)

lemma same_structure_trans:
  "same_structure s s1 \<Longrightarrow> same_structure s1 s2 \<Longrightarrow> same_structure s s2"
  by (simp add: same_structure_def)

lemma same_structure_set_field:
  assumes "type_f (cell s key) = field_t" and "type_f (f (cell s key)) = field_t"
  shows "same_structure s (set_field key f s)"
  using assms by (simp add: same_structure_def set_field_def)

lemma updater_same_structure_all:
  assumes "setValues_updater opts vals s = Some r"
  shows "\<forall>s'. r = Inr s' \<longrightarrow> same_structure s s'"
proof (rule setValues_updater.raw_induct
    [where P = "\<lambda>opts vals s r. \<forall>s'. r = Inr s' \<longrightarrow> same_structure s s'", OF _ assms],
    goal_cases)
  case (1 f opts vals s r)
  show ?case
  proof (cases vals)
    case Nil
    with 1(2) show ?thesis by (auto simp: same_structure_refl)
  next
    case (Cons kv rest)
    obtain key v where kv: "kv = (key, v)" by (cases kv)
    show ?thesis
    proof (cases "type_f (cell s key)")
      case field_t
      with 1(2) Cons kv have "f opts rest (set_field key (set_value opts v) s) = Some r" by simp
      from 1(1) [OF this] same_structure_set_field [of s key "set_value opts v"] field_t
      show ?thesis
        by (auto simp: set_value_type intro: same_structure_trans)
    next
      case map_t
      show ?thesis
      proof (intro allI impI)
        fix s'
        assume r: "r = Inr s'"
        from map_t 1(2) Cons kv r obtain es s1 where
          "Object_entries v = Inr es" and a: "f opts (newValues key es) s = Some (Inr s1)"
          and b: "f opts rest s1 = Some (Inr s')"
          by (auto split: sum.splits Option.bind_splits)
        from 1(1) [OF a] 1(1) [OF b] show "same_structure s s'"
          by (auto intro: same_structure_trans)
      qed
    next
      case list_t
      with 1(2) Cons kv have "f opts rest s = Some r" by simp
      from 1(1) [OF this] show ?thesis .
    qed
  qed
qed

lemma updater_same_structure:
  "setValues_updater opts vals s = Some (Inr s') \<Longrightarrow> same_structure s s'"
  using updater_same_structure_all by blast

text \<open>The continuation after the entries of a map, equal wherever the lists stay lists.\<close>

lemma bind_after_map_cong:
  assumes "\<And>s'. m = Some (Inr s') \<Longrightarrow> k s' = k' s'"
  shows "Option.bind m (\<lambda>r. case r of Inl e \<Rightarrow> Some (Inl e) | Inr s' \<Rightarrow> k s') =
         Option.bind m (\<lambda>r. case r of Inl e \<Rightarrow> Some (Inl (e :: error)) | Inr s' \<Rightarrow> k' s')"
  using assms by (cases m) (auto split: sum.splits)

lemma updater_drop_list:
  "type_f (cell s l) = list_t \<Longrightarrow>
   setValues_updater opts (xs @ (l, v) # ys) s = setValues_updater opts (xs @ ys) s"
proof (induction xs arbitrary: s)
  case Nil
  then show ?case by (simp add: updater_list)
next
  case (Cons kv rest)
  obtain key w where kv: "kv = (key, w)" by (cases kv)
  show ?case
  proof (cases "type_f (cell s key)")
    case field_t
    have "type_f (cell (set_field key (set_value opts w) s) l) = list_t"
      using Cons.prems by (auto simp: set_field_def set_value_type)
    from Cons.IH [OF this] field_t show ?thesis by (simp add: kv updater_field)
  next
    case map_t
    show ?thesis
    proof (cases "Object_entries w")
      case (Inl e)
      with map_t show ?thesis by (simp add: kv updater_map)
    next
      case (Inr es)
      have "Option.bind (setValues_updater opts (newValues key es) s)
              (\<lambda>r. case r of Inl e \<Rightarrow> Some (Inl e)
                    | Inr s' \<Rightarrow> setValues_updater opts (rest @ (l, v) # ys) s') =
            Option.bind (setValues_updater opts (newValues key es) s)
              (\<lambda>r. case r of Inl e \<Rightarrow> Some (Inl e)
                    | Inr s' \<Rightarrow> setValues_updater opts (rest @ ys) s')"
      proof (rule bind_after_map_cong)
        fix s'
        assume "setValues_updater opts (newValues key es) s = Some (Inr s')"
        then have "same_structure s s'" by (rule updater_same_structure)
        with Cons.prems have "type_f (cell s' l) = list_t" by (simp add: same_structure_def)
        then show "setValues_updater opts (rest @ (l, v) # ys) s' =
                   setValues_updater opts (rest @ ys) s'"
          by (rule Cons.IH)
      qed
      with map_t Inr show ?thesis by (simp add: kv updater_map)
    qed
  next
    case list_t
    with Cons show ?thesis by (simp add: kv updater_list)
  qed
qed

text \<open>The same for the updater of \<open>setInitialValues\<close>.\<close>

lemma init_Nil: "setInitialValues_updater [] s = Some (Inr s)"
  by (subst setInitialValues_updater.simps) simp

lemma init_field:
  "type_f (cell s key) = field_t \<Longrightarrow>
   setInitialValues_updater ((key, v) # rest) s =
     setInitialValues_updater rest (set_field key (\<lambda>state. state\<lparr>initialValue := v\<rparr>) s)"
  by (subst setInitialValues_updater.simps) simp

lemma init_list:
  "type_f (cell s key) = list_t \<Longrightarrow>
   setInitialValues_updater ((key, v) # rest) s = setInitialValues_updater rest s"
  by (subst setInitialValues_updater.simps) simp

lemma init_map:
  "type_f (cell s key) = map_t \<Longrightarrow>
   setInitialValues_updater ((key, v) # rest) s =
     (case Object_entries v of
        Inl e \<Rightarrow> Some (Inl e)
      | Inr es \<Rightarrow>
          Option.bind (setInitialValues_updater (newValues key es) s)
            (\<lambda>r. case r of Inl e \<Rightarrow> Some (Inl e) | Inr s' \<Rightarrow> setInitialValues_updater rest s'))"
  by (subst setInitialValues_updater.simps) simp

lemma init_same_structure_all:
  assumes "setInitialValues_updater vals s = Some r"
  shows "\<forall>s'. r = Inr s' \<longrightarrow> same_structure s s'"
proof (rule setInitialValues_updater.raw_induct
    [where P = "\<lambda>vals s r. \<forall>s'. r = Inr s' \<longrightarrow> same_structure s s'", OF _ assms],
    goal_cases)
  case (1 f vals s r)
  show ?case
  proof (cases vals)
    case Nil
    with 1(2) show ?thesis by (auto simp: same_structure_refl)
  next
    case (Cons kv rest)
    obtain key v where kv: "kv = (key, v)" by (cases kv)
    show ?thesis
    proof (cases "type_f (cell s key)")
      case field_t
      with 1(2) Cons kv
      have "f rest (set_field key (\<lambda>state. state\<lparr>initialValue := v\<rparr>) s) = Some r" by simp
      from 1(1) [OF this]
        same_structure_set_field [of s key "\<lambda>state. state\<lparr>initialValue := v\<rparr>"] field_t
      show ?thesis
        by (auto intro: same_structure_trans)
    next
      case map_t
      show ?thesis
      proof (intro allI impI)
        fix s'
        assume r: "r = Inr s'"
        from map_t 1(2) Cons kv r obtain es s1 where
          "Object_entries v = Inr es" and a: "f (newValues key es) s = Some (Inr s1)"
          and b: "f rest s1 = Some (Inr s')"
          by (auto split: sum.splits Option.bind_splits)
        from 1(1) [OF a] 1(1) [OF b] show "same_structure s s'"
          by (auto intro: same_structure_trans)
      qed
    next
      case list_t
      with 1(2) Cons kv have "f rest s = Some r" by simp
      from 1(1) [OF this] show ?thesis .
    qed
  qed
qed

lemma init_same_structure:
  "setInitialValues_updater vals s = Some (Inr s') \<Longrightarrow> same_structure s s'"
  using init_same_structure_all by blast

lemma init_drop_list:
  "type_f (cell s l) = list_t \<Longrightarrow>
   setInitialValues_updater (xs @ (l, v) # ys) s = setInitialValues_updater (xs @ ys) s"
proof (induction xs arbitrary: s)
  case Nil
  then show ?case by (simp add: init_list)
next
  case (Cons kv rest)
  obtain key w where kv: "kv = (key, w)" by (cases kv)
  show ?case
  proof (cases "type_f (cell s key)")
    case field_t
    have "type_f (cell (set_field key (\<lambda>state. state\<lparr>initialValue := w\<rparr>) s) l) = list_t"
      using Cons.prems by (auto simp: set_field_def)
    from Cons.IH [OF this] field_t show ?thesis by (simp add: kv init_field)
  next
    case map_t
    show ?thesis
    proof (cases "Object_entries w")
      case (Inl e)
      with map_t show ?thesis by (simp add: kv init_map)
    next
      case (Inr es)
      have "Option.bind (setInitialValues_updater (newValues key es) s)
              (\<lambda>r. case r of Inl e \<Rightarrow> Some (Inl e)
                    | Inr s' \<Rightarrow> setInitialValues_updater (rest @ (l, v) # ys) s') =
            Option.bind (setInitialValues_updater (newValues key es) s)
              (\<lambda>r. case r of Inl e \<Rightarrow> Some (Inl e)
                    | Inr s' \<Rightarrow> setInitialValues_updater (rest @ ys) s')"
      proof (rule bind_after_map_cong)
        fix s'
        assume "setInitialValues_updater (newValues key es) s = Some (Inr s')"
        then have "same_structure s s'" by (rule init_same_structure)
        with Cons.prems have "type_f (cell s' l) = list_t" by (simp add: same_structure_def)
        then show "setInitialValues_updater (rest @ (l, v) # ys) s' =
                   setInitialValues_updater (rest @ ys) s'"
          by (rule Cons.IH)
      qed
      with map_t Inr show ?thesis by (simp add: kv init_map)
    qed
  next
    case list_t
    with Cons show ?thesis by (simp add: kv init_list)
  qed
qed

text \<open>
  C8. For a cell \<open>x\<close> of type field, \<open>setValues({x: v}, {validate: false})\<close> returns, and
  the new state is the old one with the value of \<open>x\<close> set to \<open>v\<close>: the validation of
  \<open>x\<close> is the one it had, and the validator is not run.
\<close>

theorem setValues_without_validate:
  assumes "type_f (cell s x) = field_t"
  shows "setValues [(x, v)] \<lparr>validate = False, equal = alwaysFalse\<rparr> s =
           Some (Inr (set_field x (\<lambda>state. state\<lparr>value_f := v\<rparr>) s))
       \<and> value_f (cell (set_field x (\<lambda>state. state\<lparr>value_f := v\<rparr>) s) x) = v
       \<and> validation (cell (set_field x (\<lambda>state. state\<lparr>value_f := v\<rparr>) s) x) = validation (cell s x)"
proof -
  have "set_value \<lparr>validate = False, equal = alwaysFalse\<rparr> v = (\<lambda>state. state\<lparr>value_f := v\<rparr>)"
    by (rule ext) (simp add: set_value_def alwaysFalse_def)
  then show ?thesis
    using assms by (simp add: setValues_def updater_field updater_Nil set_field_def)
qed

theorem setValues_without_validate_witness:
  "type_f (cell example_form ''x'') = field_t
   \<and> validation (cell example_form ''x'') \<noteq> validator (cell example_form ''x'') (JStr [])
   \<and> (\<exists>s'. setValues [(''x'', JStr [])] \<lparr>validate = False, equal = alwaysFalse\<rparr> example_form
              = Some (Inr s')
        \<and> value_f (cell s' ''x'') = JStr []
        \<and> validation (cell s' ''x'') = validation (cell example_form ''x''))"
  using setValues_without_validate [where s = example_form and x = "''x''" and v = "JStr []"]
  by (simp add: eval_defs)

text \<open>
  C9. An entry of \<open>setValues\<close> or \<open>setInitialValues\<close> for a cell \<open>l\<close> of type list is
  ignored. Alone, the call returns without an error and leaves the whole state as it
  was, the list and everything below it included; so it does when the entry comes
  from the value of a map. Among other entries, the call does what it does without
  that entry, and no call changes the cell of the list. The other entries are applied:
  beside the entry of the list, an entry for a field \<open>x\<close> sets its value (and its
  validation, when asked) or its initial value, and an entry for a map \<open>m\<close> sets those of
  its field \<open>m.k\<close>.
\<close>

theorem list_entry_ignored:
  assumes "type_f (cell s l) = list_t"
  shows "setValues [(l, v)] opts s = Some (Inr s)
       \<and> setInitialValues [(l, v)] s = Some (Inr s)
       \<and> setValues (xs @ (l, v) # ys) opts s = setValues (xs @ ys) opts s
       \<and> setInitialValues (xs @ (l, v) # ys) s = setInitialValues (xs @ ys) s
       \<and> (setValues vals opts s = Some (Inr s') \<longrightarrow> cell s' l = cell s l)
       \<and> (setInitialValues vals s = Some (Inr s'') \<longrightarrow> cell s'' l = cell s l)
       \<and> (type_f (cell s m) = map_t \<and> l = m @ ''.'' @ j \<longrightarrow>
            setValues [(m, JObj [(j, v)])] opts s = Some (Inr s)
          \<and> setInitialValues [(m, JObj [(j, v)])] s = Some (Inr s))
       \<and> (type_f (cell s x) = field_t \<and> \<not> equal opts (value_f (cell s x)) w \<longrightarrow>
            setValues [(l, v), (x, w)] opts s =
              Some (Inr (s\<lparr>cell := (cell s)
                    (x := (cell s x)\<lparr>value_f := w,
                           validation := (if validate opts then validator (cell s x) w
                                          else validation (cell s x))\<rparr>)\<rparr>)))
       \<and> (type_f (cell s x) = field_t \<longrightarrow>
            setInitialValues [(l, v), (x, w)] s =
              Some (Inr (s\<lparr>cell := (cell s)(x := (cell s x)\<lparr>initialValue := w\<rparr>)\<rparr>)))
       \<and> (type_f (cell s m) = map_t \<and> type_f (cell s (m @ ''.'' @ k)) = field_t
          \<and> \<not> equal opts (value_f (cell s (m @ ''.'' @ k))) w \<longrightarrow>
            setValues [(l, v), (m, JObj [(k, w)])] opts s =
              Some (Inr (s\<lparr>cell := (cell s)
                    (m @ ''.'' @ k := (cell s (m @ ''.'' @ k))\<lparr>value_f := w,
                           validation := (if validate opts then validator (cell s (m @ ''.'' @ k)) w
                                          else validation (cell s (m @ ''.'' @ k)))\<rparr>)\<rparr>)))
       \<and> (type_f (cell s m) = map_t \<and> type_f (cell s (m @ ''.'' @ k)) = field_t \<longrightarrow>
            setInitialValues [(l, v), (m, JObj [(k, w)])] s =
              Some (Inr (s\<lparr>cell := (cell s)
                    (m @ ''.'' @ k := (cell s (m @ ''.'' @ k))\<lparr>initialValue := w\<rparr>)\<rparr>)))"
proof -
  have a: "setValues [(l, v)] opts s = Some (Inr s)"
    using assms by (simp add: setValues_def updater_list updater_Nil)
  have b: "setInitialValues [(l, v)] s = Some (Inr s)"
    using assms by (simp add: setInitialValues_def init_list init_Nil)
  have c: "setValues (xs @ (l, v) # ys) opts s = setValues (xs @ ys) opts s"
    using assms by (simp add: setValues_def updater_drop_list)
  have d: "setInitialValues (xs @ (l, v) # ys) s = setInitialValues (xs @ ys) s"
    using assms by (simp add: setInitialValues_def init_drop_list)
  have e: "setValues vals opts s = Some (Inr s') \<longrightarrow> cell s' l = cell s l"
    using assms updater_same_structure [of opts vals s s']
    by (simp add: setValues_def same_structure_def)
  have f: "setInitialValues vals s = Some (Inr s'') \<longrightarrow> cell s'' l = cell s l"
    using assms init_same_structure [of vals s s'']
    by (simp add: setInitialValues_def same_structure_def)
  have g: "type_f (cell s m) = map_t \<and> l = m @ ''.'' @ j \<longrightarrow>
            setValues [(m, JObj [(j, v)])] opts s = Some (Inr s)
          \<and> setInitialValues [(m, JObj [(j, v)])] s = Some (Inr s)"
  proof (intro impI conjI)
    assume "type_f (cell s m) = map_t \<and> l = m @ ''.'' @ j"
    with assms have tm: "type_f (cell s m) = map_t"
      and tl: "type_f (cell s (m @ ''.'' @ j)) = list_t"
      by simp_all
    from tl have "setValues_updater opts [(m @ ''.'' @ j, v)] s = Some (Inr s)"
      by (simp add: updater_list updater_Nil)
    with tm show "setValues [(m, JObj [(j, v)])] opts s = Some (Inr s)"
      by (simp add: setValues_def updater_map newValues_def updater_Nil)
    from tl have "setInitialValues_updater [(m @ ''.'' @ j, v)] s = Some (Inr s)"
      by (simp add: init_list init_Nil)
    with tm show "setInitialValues [(m, JObj [(j, v)])] s = Some (Inr s)"
      by (simp add: setInitialValues_def init_map newValues_def init_Nil)
  qed
  have h: "type_f (cell s x) = field_t \<and> \<not> equal opts (value_f (cell s x)) w \<longrightarrow>
            setValues [(l, v), (x, w)] opts s =
              Some (Inr (s\<lparr>cell := (cell s)
                    (x := (cell s x)\<lparr>value_f := w,
                           validation := (if validate opts then validator (cell s x) w
                                          else validation (cell s x))\<rparr>)\<rparr>))"
    using assms
    by (simp add: setValues_def updater_list updater_field updater_Nil set_field_def
        set_value_def)
  have i: "type_f (cell s x) = field_t \<longrightarrow>
            setInitialValues [(l, v), (x, w)] s =
              Some (Inr (s\<lparr>cell := (cell s)(x := (cell s x)\<lparr>initialValue := w\<rparr>)\<rparr>))"
    using assms
    by (simp add: setInitialValues_def init_list init_field init_Nil set_field_def)
  have n: "type_f (cell s m) = map_t \<and> type_f (cell s (m @ ''.'' @ k)) = field_t
          \<and> \<not> equal opts (value_f (cell s (m @ ''.'' @ k))) w \<longrightarrow>
            setValues [(l, v), (m, JObj [(k, w)])] opts s =
              Some (Inr (s\<lparr>cell := (cell s)
                    (m @ ''.'' @ k := (cell s (m @ ''.'' @ k))\<lparr>value_f := w,
                           validation := (if validate opts then validator (cell s (m @ ''.'' @ k)) w
                                          else validation (cell s (m @ ''.'' @ k)))\<rparr>)\<rparr>))"
    using assms
    by (simp add: setValues_def updater_list updater_map updater_field updater_Nil
        newValues_def set_field_def set_value_def)
  have o: "type_f (cell s m) = map_t \<and> type_f (cell s (m @ ''.'' @ k)) = field_t \<longrightarrow>
            setInitialValues [(l, v), (m, JObj [(k, w)])] s =
              Some (Inr (s\<lparr>cell := (cell s)
                    (m @ ''.'' @ k := (cell s (m @ ''.'' @ k))\<lparr>initialValue := w\<rparr>)\<rparr>))"
    using assms
    by (simp add: setInitialValues_def init_list init_map init_field init_Nil
        newValues_def set_field_def)
  from a b c d e f g h i n o show ?thesis by (simp only: simp_thms)
qed

theorem list_entry_ignored_witness:
  "type_f (cell example_with_list ''a.tags'') = list_t
   \<and> type_f (cell example_with_list ''a'') = map_t
   \<and> type_f (cell example_with_list ''x'') = field_t
   \<and> type_f (cell example_with_list ''a.b'') = field_t
   \<and> value_f (cell example_with_list ''x'') = JStr ''v''
   \<and> validation (cell example_with_list ''x'') = \<lparr>isValid = True, isValidStrict = True\<rparr>
   \<and> setValues [(''a.tags'', JObj [(''0'', JStr ''t'')])] defaultSetValuesOptions example_with_list
       = Some (Inr example_with_list)
   \<and> setInitialValues [(''a.tags'', JObj [(''0'', JStr ''t'')])] example_with_list
       = Some (Inr example_with_list)
   \<and> setValues [(''a'', JObj [(''tags'', JObj [(''0'', JStr ''t'')])])] defaultSetValuesOptions
         example_with_list
       = Some (Inr example_with_list)
   \<and> (\<exists>s'. setValues [(''a.tags'', JObj [(''0'', JStr ''t'')]), (''x'', JStr [])]
               defaultSetValuesOptions example_with_list = Some (Inr s')
          \<and> value_f (cell s' ''x'') = JStr []
          \<and> validation (cell s' ''x'') = \<lparr>isValid = False, isValidStrict = False\<rparr>
          \<and> cell s' ''a.tags'' = cell example_with_list ''a.tags'')
   \<and> (\<exists>s'. setInitialValues [(''a.tags'', JObj [(''0'', JStr ''t'')]), (''x'', JStr ''i'')]
               example_with_list = Some (Inr s')
          \<and> initialValue (cell s' ''x'') = JStr ''i'')
   \<and> (\<exists>s'. setValues [(''a.tags'', JObj [(''0'', JStr ''t'')]), (''a'', JObj [(''b'', JStr ''n'')])]
               defaultSetValuesOptions example_with_list = Some (Inr s')
          \<and> value_f (cell s' ''a.b'') = JStr ''n'')
   \<and> (\<exists>s'. setInitialValues
               [(''a.tags'', JObj [(''0'', JStr ''t'')]), (''a'', JObj [(''b'', JStr ''n'')])]
               example_with_list = Some (Inr s')
          \<and> initialValue (cell s' ''a.b'') = JStr ''n'')"
proof -
  let ?v = "JObj [(''0'', JStr ''t'')]"
  have tl: "type_f (cell example_with_list ''a.tags'') = list_t"
    by (simp add: eval_defs)
  have tm: "type_f (cell example_with_list ''a'') = map_t"
    by (simp add: eval_defs)
  have tx: "type_f (cell example_with_list ''x'') = field_t"
    by (simp add: eval_defs)
  have tb: "type_f (cell example_with_list ''a.b'') = field_t"
    by (simp add: eval_defs)
  have vx: "value_f (cell example_with_list ''x'') = JStr ''v''"
    by (simp add: eval_defs)
  have rx: "validation (cell example_with_list ''x'') = \<lparr>isValid = True, isValidStrict = True\<rparr>"
    by (simp add: eval_defs)
  have fx: "validator (cell example_with_list ''x'') = required"
    by (simp add: eval_defs)
  have name: "''a.tags'' = ''a'' @ ''.'' @ ''tags''" "''a.b'' = ''a'' @ ''.'' @ ''b''"
    by simp_all
  have ne: "\<not> equal defaultSetValuesOptions (value_f (cell example_with_list ''x'')) (JStr [])"
    "\<not> equal defaultSetValuesOptions (value_f (cell example_with_list ''a.b'')) (JStr ''n'')"
    by (simp_all add: defaultSetValuesOptions_def alwaysFalse_def)
  have val: "validate defaultSetValuesOptions"
    by (simp add: defaultSetValuesOptions_def)
  note inst1 = list_entry_ignored [OF tl, where v = ?v and opts = defaultSetValuesOptions
      and m = "''a''" and j = "''tags''" and k = "''b''" and x = "''x''" and w = "JStr []"]
  note inst2 = list_entry_ignored [OF tl, where v = ?v and opts = defaultSetValuesOptions
      and m = "''a''" and j = "''tags''" and k = "''b''" and x = "''x''" and w = "JStr ''i''"]
  note inst3 = list_entry_ignored [OF tl, where v = ?v and opts = defaultSetValuesOptions
      and m = "''a''" and j = "''tags''" and k = "''b''" and x = "''x''" and w = "JStr ''n''"]
  have alone: "setValues [(''a.tags'', ?v)] defaultSetValuesOptions example_with_list
                 = Some (Inr example_with_list)"
    "setInitialValues [(''a.tags'', ?v)] example_with_list = Some (Inr example_with_list)"
    using inst1 by blast+
  have nested: "setValues [(''a'', JObj [(''tags'', ?v)])] defaultSetValuesOptions example_with_list
                  = Some (Inr example_with_list)"
    using inst1 tm name(1) by blast
  have field_v: "\<exists>s'. setValues [(''a.tags'', ?v), (''x'', JStr [])]
               defaultSetValuesOptions example_with_list = Some (Inr s')
          \<and> value_f (cell s' ''x'') = JStr []
          \<and> validation (cell s' ''x'') = \<lparr>isValid = False, isValidStrict = False\<rparr>
          \<and> cell s' ''a.tags'' = cell example_with_list ''a.tags''"
  proof -
    from inst1 tx ne(1) have
      "setValues [(''a.tags'', ?v), (''x'', JStr [])] defaultSetValuesOptions example_with_list =
         Some (Inr (example_with_list\<lparr>cell := (cell example_with_list)
           (''x'' := (cell example_with_list ''x'')\<lparr>value_f := JStr [],
              validation := (if validate defaultSetValuesOptions
                             then validator (cell example_with_list ''x'') (JStr [])
                             else validation (cell example_with_list ''x''))\<rparr>)\<rparr>))"
      by blast
    then show ?thesis by (simp add: val fx required_def)
  qed
  have field_i: "\<exists>s'. setInitialValues [(''a.tags'', ?v), (''x'', JStr ''i'')]
               example_with_list = Some (Inr s')
          \<and> initialValue (cell s' ''x'') = JStr ''i''"
  proof -
    from inst2 tx have
      "setInitialValues [(''a.tags'', ?v), (''x'', JStr ''i'')] example_with_list =
         Some (Inr (example_with_list\<lparr>cell := (cell example_with_list)
           (''x'' := (cell example_with_list ''x'')\<lparr>initialValue := JStr ''i''\<rparr>)\<rparr>))"
      by blast
    then show ?thesis by simp
  qed
  have map_v: "\<exists>s'. setValues [(''a.tags'', ?v), (''a'', JObj [(''b'', JStr ''n'')])]
               defaultSetValuesOptions example_with_list = Some (Inr s')
          \<and> value_f (cell s' ''a.b'') = JStr ''n''"
  proof -
    from inst3 tm tb ne(2) have
      "setValues [(''a.tags'', ?v), (''a'', JObj [(''b'', JStr ''n'')])] defaultSetValuesOptions
          example_with_list =
         Some (Inr (example_with_list\<lparr>cell := (cell example_with_list)
           (''a'' @ ''.'' @ ''b'' := (cell example_with_list (''a'' @ ''.'' @ ''b''))\<lparr>value_f := JStr ''n'',
              validation := (if validate defaultSetValuesOptions
                             then validator (cell example_with_list (''a'' @ ''.'' @ ''b'')) (JStr ''n'')
                             else validation (cell example_with_list (''a'' @ ''.'' @ ''b'')))\<rparr>)\<rparr>))"
      unfolding name(2) by blast
    then show ?thesis by simp
  qed
  have map_i: "\<exists>s'. setInitialValues [(''a.tags'', ?v), (''a'', JObj [(''b'', JStr ''n'')])]
               example_with_list = Some (Inr s')
          \<and> initialValue (cell s' ''a.b'') = JStr ''n''"
  proof -
    from inst3 tm tb have
      "setInitialValues [(''a.tags'', ?v), (''a'', JObj [(''b'', JStr ''n'')])] example_with_list =
         Some (Inr (example_with_list\<lparr>cell := (cell example_with_list)
           (''a'' @ ''.'' @ ''b'' := (cell example_with_list (''a'' @ ''.'' @ ''b''))\<lparr>initialValue := JStr ''n''\<rparr>)\<rparr>))"
      unfolding name(2) by blast
    then show ?thesis by simp
  qed
  from tl tm tx tb vx rx alone nested field_v field_i map_v map_i show ?thesis
    by (simp only: simp_thms)
qed

section \<open>Lists: properties\<close>

lemma js_index_valid: "0 \<le> a \<Longrightarrow> a < int (length xs) \<Longrightarrow> js_index xs a = Some (xs ! nat a)"
  by (simp add: js_index_def)

lemma swap_children_valid:
  assumes "0 \<le> a" "a < int (length cs)" "0 \<le> b" "b < int (length cs)"
  shows "swap_children a b cs = map Some (cs[nat a := cs ! nat b, nat b := cs ! nat a])"
proof (rule nth_equalityI)
  show "length (swap_children a b cs) = length (map Some (cs[nat a := cs ! nat b, nat b := cs ! nat a]))"
    by (simp add: swap_children_def Let_def)
next
  fix i
  assume "i < length (swap_children a b cs)"
  then have i: "i < length cs" by (simp add: swap_children_def Let_def)
  have ia: "(int i = a) = (i = nat a)" using assms(1) by auto
  have ib: "(int i = b) = (i = nat b)" using assms(3) by auto
  show "swap_children a b cs ! i = map Some (cs[nat a := cs ! nat b, nat b := cs ! nat a]) ! i"
    using i assms
    by (simp add: swap_children_def Let_def js_index_valid nth_enumerate_eq ia ib nth_list_update)
qed

lemma defined_children_map_Some: "defined_children (map Some xs) = Some xs"
  by (auto simp: defined_children_def comp_def)

lemma list_swap_valid:
  assumes "0 \<le> a" "a < int (length (children (cell s name)))"
    and "0 \<le> b" "b < int (length (children (cell s name)))"
  shows "list_swap name a b s =
           Some (set_field name
                  (\<lambda>state. state\<lparr>children :=
                     (children (cell s name))[nat a := children (cell s name) ! nat b,
                                              nat b := children (cell s name) ! nat a]\<rparr>) s)"
  using assms by (simp add: list_swap_def swap_children_valid defined_children_map_Some)

lemma swap_twice:
  assumes "i < length xs" "j < length xs"
  shows "(xs[i := xs ! j, j := xs ! i])[i := xs[i := xs ! j, j := xs ! i] ! j,
                                         j := xs[i := xs ! j, j := xs ! i] ! i] = xs"
  using assms by (auto simp: list_eq_iff_nth_eq nth_list_update)

lemma generateNewName_reuse:
  "namesToReuse env = r # rest \<Longrightarrow> r \<noteq> [] \<Longrightarrow>
   generateNewName uid name env = (name @ ''.'' @ r, env\<lparr>namesToReuse := removeAll r rest\<rparr>)"
  by (simp add: generateNewName_def Let_def)

lemma list_remove_pool:
  assumes "0 \<le> index" "index < int (length (children (cell (store env) name)))"
  shows "namesToReuse (list_remove name index env) =
           addOnlyIfUnique (namesToReuse env)
             (last (split_dot (children (cell (store env) name) ! nat index)))"
    and "uid_calls (list_remove name index env) = uid_calls env"
  using assms by (simp_all add: list_remove_def Let_def js_index_def removeName_def setFieldState_def)

text \<open>
  C7. For valid indices \<open>a\<close> and \<open>b\<close>, \<open>swap(a, b)\<close> returns the state in which the
  children of the list have the entries at \<open>a\<close> and \<open>b\<close> exchanged and nothing else is
  changed: every other cell, the swapped children's own cells among them, is the same.
  A second \<open>swap(a, b)\<close> gives back the state before the first.
\<close>

theorem swap_involution:
  assumes "0 \<le> a" and "a < int (length (children (cell s name)))"
    and "0 \<le> b" and "b < int (length (children (cell s name)))"
  shows "list_swap name a b s =
           Some (set_field name
                  (\<lambda>state. state\<lparr>children :=
                     (children state)[nat a := children state ! nat b,
                                      nat b := children state ! nat a]\<rparr>) s)
       \<and> (p \<noteq> name \<longrightarrow> cell (the (list_swap name a b s)) p = cell s p)
       \<and> Option.bind (list_swap name a b s) (list_swap name a b) = Some s"
proof -
  let ?cs = "children (cell s name)"
  let ?cs' = "?cs[nat a := ?cs ! nat b, nat b := ?cs ! nat a]"
  let ?s' = "set_field name (\<lambda>state. state\<lparr>children := ?cs'\<rparr>) s"
  have one: "list_swap name a b s = Some ?s'"
    using assms by (rule list_swap_valid)
  have same: "?s' = set_field name
                  (\<lambda>state. state\<lparr>children :=
                     (children state)[nat a := children state ! nat b,
                                      nat b := children state ! nat a]\<rparr>) s"
    by (simp add: set_field_def)
  have others: "p \<noteq> name \<longrightarrow> cell ?s' p = cell s p"
    by (simp add: set_field_def)
  have cs': "children (cell ?s' name) = ?cs'"
    by (simp add: set_field_def)
  have len: "length (children (cell ?s' name)) = length ?cs"
    by (simp add: cs')
  have two: "list_swap name a b ?s' =
      Some (set_field name (\<lambda>state. state\<lparr>children :=
              ?cs'[nat a := ?cs' ! nat b, nat b := ?cs' ! nat a]\<rparr>) ?s')"
    using list_swap_valid [of a ?s' name b] assms unfolding len cs' by simp
  have restored: "?cs'[nat a := ?cs' ! nat b, nat b := ?cs' ! nat a] = ?cs"
    using assms by (intro swap_twice) simp_all
  have "list_swap name a b ?s' = Some s"
    unfolding two restored by (simp add: set_field_def)
  with one same others show ?thesis by simp
qed

theorem swap_involution_witness:
  "(0::int) \<le> 0 \<and> 0 < int (length (children (cell (store example_rows_added) ''l'')))
   \<and> (0::int) \<le> 1 \<and> 1 < int (length (children (cell (store example_rows_added) ''l'')))
   \<and> children (cell (store example_rows_added) ''l'') = [''l.2'', ''l.0'']
   \<and> children (cell (the (list_swap ''l'' 0 1 (store example_rows_added))) ''l'')
       = [''l.0'', ''l.2'']
   \<and> Option.bind (list_swap ''l'' 0 1 (store example_rows_added)) (list_swap ''l'' 0 1)
       = Some (store example_rows_added)"
proof -
  have cs: "children (cell (store example_rows_added) ''l'') = [''l.2'', ''l.0'']"
    by code_simp
  have h: "(0::int) \<le> 0" "0 < int (length (children (cell (store example_rows_added) ''l'')))"
    "(0::int) \<le> 1" "1 < int (length (children (cell (store example_rows_added) ''l'')))"
    by (simp_all add: cs)
  note inst = swap_involution [OF h, where p = "''x''"]
  note swapped = inst [THEN conjunct1]
  note again = inst [THEN conjunct2, THEN conjunct2]
  have "children (cell (the (list_swap ''l'' 0 1 (store example_rows_added))) ''l'')
          = [''l.0'', ''l.2'']"
    unfolding swapped by (simp add: set_field_def cs)
  with again h cs show ?thesis by blast
qed

text \<open>
  Where the pool holds no other identifier, the released one comes back: the first
  identifier of the pool, when it is not the empty string, is removed and used for the
  new name without a call of \<open>uid\<close>; so \<open>add()\<close>, \<open>remove(index)\<close> at a valid index and
  \<open>add()\<close> name the new row with the identifier of the removed one when the pool is
  empty as the removal starts.
\<close>

lemma reuse_released_id:
  "(namesToReuse env = r # rest \<and> r \<noteq> [] \<longrightarrow>
      generateNewName uid name env = (name @ ''.'' @ r, env\<lparr>namesToReuse := removeAll r rest\<rparr>))
   \<and> (let env1 = snd (list_add uid name env);
           child = children (cell (store env1) name) ! nat index;
           env2 = list_remove name index env1
       in namesToReuse env1 = [] \<and> 0 \<le> index
          \<and> index < int (length (children (cell (store env1) name)))
          \<and> last (split_dot child) \<noteq> [] \<longrightarrow>
          fst (list_add uid name env2) = name @ ''.'' @ last (split_dot child)
          \<and> uid_calls (snd (list_add uid name env2)) = uid_calls env1)"
proof -
  have a: "namesToReuse env = r # rest \<and> r \<noteq> [] \<longrightarrow>
      generateNewName uid name env = (name @ ''.'' @ r, env\<lparr>namesToReuse := removeAll r rest\<rparr>)"
    by (simp add: generateNewName_reuse)
  have b: "fst (list_add uid name (list_remove name index env1)) =
             name @ ''.'' @ last (split_dot (children (cell (store env1) name) ! nat index))
         \<and> uid_calls (snd (list_add uid name (list_remove name index env1))) = uid_calls env1"
    if "namesToReuse env1 = []" "0 \<le> index"
      "index < int (length (children (cell (store env1) name)))"
      "last (split_dot (children (cell (store env1) name) ! nat index)) \<noteq> []"
    for env1
  proof -
    let ?rid = "last (split_dot (children (cell (store env1) name) ! nat index))"
    let ?env2 = "list_remove name index env1"
    have pool: "namesToReuse ?env2 = [?rid]"
      using that by (simp add: list_remove_pool addOnlyIfUnique_def)
    have calls: "uid_calls ?env2 = uid_calls env1"
      using that by (simp add: list_remove_pool)
    have "generateNewName uid name ?env2 =
            (name @ ''.'' @ ?rid, ?env2\<lparr>namesToReuse := removeAll ?rid []\<rparr>)"
      using pool that(4) by (rule generateNewName_reuse)
    then show ?thesis
      using calls by (simp add: list_add_def setFieldState_def)
  qed
  from a b show ?thesis by (simp add: Let_def)
qed

text \<open>
  C6, at an input where the code does not do what the claim says. The list \<open>l\<close> has had
  three rows added and the first two removed, so that its children are \<open>l.2\<close> and the
  pool holds \<open>0\<close> and \<open>1\<close>. Then \<open>add()\<close> names its row \<open>l.0\<close>, \<open>remove(0)\<close> removes
  \<open>l.2\<close> and releases \<open>2\<close> into the pool, which is not empty, and the next \<open>add()\<close>
  names its row \<open>l.1\<close>: it takes the identifier that has been longest in the pool, not
  the one that the removal released.
\<close>

theorem add_after_remove_takes_oldest:
  "children (cell (store example_rows) ''l'') = [''l.2'']
   \<and> namesToReuse example_rows = [''0'', ''1'']
   \<and> fst (list_add show_nat ''l'' example_rows) = ''l.0''
   \<and> children (cell (store example_rows_added) ''l'') = [''l.2'', ''l.0'']
   \<and> last (split_dot (children (cell (store example_rows_added) ''l'') ! 0)) = ''2''
   \<and> children (cell (store example_rows_removed) ''l'') = [''l.0'']
   \<and> namesToReuse example_rows_removed = [''1'', ''2'']
   \<and> fst (list_add show_nat ''l'' example_rows_removed) = ''l.1''
   \<and> fst (list_add show_nat ''l'' example_rows_removed)
       \<noteq> ''l'' @ ''.'' @ last (split_dot (children (cell (store example_rows_added) ''l'') ! 0))"
  by code_simp

section \<open>Variants: properties\<close>














lemma onFieldTypeOnly_type:
  "(\<And>x. type_f (f x) = type_f x) \<Longrightarrow> type_f (onFieldTypeOnly f state) = type_f state"
  by (simp add: onFieldTypeOnly_def)

lemma set_field_children_type:
  "type_f (cell (set_field name (\<lambda>state. state\<lparr>children := g state\<rparr>) s) p) = type_f (cell s p)"
  by (simp add: set_field_def)

















end
